theory Spec2Isabelle
  imports Main
begin

section \<open>Data model\<close>

text \<open>
  An IPv4 address (Go \<open>net.IP\<close>) is modelled by its 32-bit value as a natural number:
  \<open>10.244.0.2\<close> is \<open>10 * 2^24 + 244 * 2^16 + 2\<close>.  \<open>net.IP.String\<close> and
  \<open>net.ParseIP\<close> of the Go standard library are mutually inverse on IPv4 addresses, so
  the text of a map key is identified with the address it denotes.  The cursor string
  \<open>Last\<close> is kept as what \<open>net.ParseIP\<close> makes of it: \<open>None\<close> stands for the empty
  or unparseable string (a \<open>nil\<close> slice, of length 0).
\<close>

type_synonym ip = nat

datatype error =
    ErrIPOverflow
  | ErrNoAvailableIP
  | ErrInvalidIP
  | ErrNotFound
  | ErrNotExist
  | ErrIO
  | ErrParse
  | ErrConfig
  | Panic

record containerNetInfo =
  ContainerID :: string
  IfName :: string

text \<open>
  \<open>type data struct\<close>.  A Go map may be \<open>nil\<close>: \<open>IPs = None\<close> is the nil map,
  \<open>IPs = Some m\<close> an allocated one.
\<close>

record data =
  IPs :: "(ip \<rightharpoonup> containerNetInfo) option"
  Last :: "ip option"

text \<open>
  The data file.  Its bytes are kept as what \<open>json.Unmarshal\<close> makes of them: a file of
  length zero, bytes that do not parse, the JSON literal \<open>null\<close>, or a document.
  \<open>json.Marshal\<close> of a document followed by \<open>json.Unmarshal\<close> gives the document
  back, which is why \<open>Save\<close> stores \<open>Doc\<close> of the data.  \<open>writes\<close> counts the system
  calls that opened the file for writing.
\<close>

datatype filedata = Empty | Corrupt | Null | Doc data

record disk =
  content :: "filedata option"
  writes :: nat

text \<open>
  What the environment does during one call: which file operations fail, and the order in
  which \<open>range\<close> visits the keys of the map (Go leaves it unspecified).
\<close>

record env =
  read_fails :: bool
  create_fails :: bool
  write_fails :: bool
  order :: "ip list"

text \<open>\<open>type Store struct\<close>: the in-memory data and the file behind \<open>dataFile\<close>.\<close>

record Store =
  sdata :: data
  sdisk :: disk

record IPNet =
  base :: ip
  ones :: nat

record IPAM =
  subnet :: IPNet
  gateway :: ip

section \<open>File operations\<close>

definition ReadFile :: "env \<Rightarrow> disk \<Rightarrow> error + filedata" where
  "ReadFile e dk =
     (if read_fails e then Inl ErrIO
      else case content dk of None \<Rightarrow> Inl ErrNotExist | Some f \<Rightarrow> Inr f)"

definition Create :: "env \<Rightarrow> disk \<Rightarrow> error + disk" where
  "Create e dk =
     (if create_fails e then Inl ErrIO
      else Inr (dk\<lparr>content := Some Empty, writes := Suc (writes dk)\<rparr>))"

definition Write :: "env \<Rightarrow> disk \<Rightarrow> filedata \<Rightarrow> error option \<times> disk" where
  "Write e dk f =
     (if write_fails e then (Some ErrIO, dk) else (None, dk\<lparr>content := Some f\<rparr>))"

definition WriteFile :: "env \<Rightarrow> disk \<Rightarrow> filedata \<Rightarrow> error option \<times> disk" where
  "WriteFile e dk f =
     (case Create e dk of
        Inl err \<Rightarrow> (Some err, dk)
      | Inr dk' \<Rightarrow> Write e dk' f)"

text \<open>The bytes \<open>{}\<close> decode to the zero value of the struct: a nil map and an empty cursor.\<close>

definition empty_object :: filedata where
  "empty_object = Doc \<lparr>IPs = None, Last = None\<rparr>"

text \<open>
  \<open>json.Unmarshal(raw, &data)\<close> where \<open>data\<close> is a pointer: the literal \<open>null\<close>
  sets the pointer itself to nil (\<open>Inr None\<close>).
\<close>

definition Unmarshal :: "filedata \<Rightarrow> error + data option" where
  "Unmarshal f =
     (case f of
        Empty \<Rightarrow> Inl ErrParse
      | Corrupt \<Rightarrow> Inl ErrParse
      | Null \<Rightarrow> Inr None
      | Doc d \<Rightarrow> Inr (Some d))"

definition Marshal :: "data \<Rightarrow> filedata" where
  "Marshal d = Doc d"

section \<open>Store\<close>

definition NewStore :: "disk \<Rightarrow> Store" where
  "NewStore dk = \<lparr>sdata = \<lparr>IPs = Some Map.empty, Last = None\<rparr>, sdisk = dk\<rparr>"

text \<open>The tail of \<open>LoadData\<close>: replace a nil map and install the data.\<close>

definition install :: "data \<Rightarrow> Store \<Rightarrow> error option \<times> Store" where
  "install d s =
     (let d' = (if IPs d = None then d\<lparr>IPs := Some Map.empty\<rparr> else d)
      in (None, s\<lparr>sdata := d'\<rparr>))"

definition LoadData :: "env \<Rightarrow> Store \<Rightarrow> error option \<times> Store" where
  "LoadData e s =
     (case ReadFile e (sdisk s) of
        Inl err \<Rightarrow>
          if err = ErrNotExist then
            (case Create e (sdisk s) of
               Inl err1 \<Rightarrow> (Some err1, s)
             | Inr dk \<Rightarrow>
                 (case Write e dk empty_object of
                    (Some err2, dk') \<Rightarrow> (Some err2, s\<lparr>sdisk := dk'\<rparr>)
                  | (None, dk') \<Rightarrow> install \<lparr>IPs = None, Last = None\<rparr> (s\<lparr>sdisk := dk'\<rparr>)))
          else (Some err, s)
      | Inr raw \<Rightarrow>
          (case Unmarshal raw of
             Inl err \<Rightarrow> (Some err, s)
           | Inr None \<Rightarrow> (Some Panic, s)
           | Inr (Some d) \<Rightarrow> install d s))"

text \<open>
  The loop \<open>for ip, info := range s.data.IPs\<close> with the test
  \<open>info.ContainerID == id\<close>, shared by \<open>GetIPById\<close> and \<open>Del\<close>: the first key, in
  the order of this call, whose record belongs to the container.
\<close>

definition owns :: "(ip \<rightharpoonup> containerNetInfo) \<Rightarrow> string \<Rightarrow> ip \<Rightarrow> bool" where
  "owns m cid a = (case m a of None \<Rightarrow> False | Some info \<Rightarrow> ContainerID info = cid)"

definition first_match :: "env \<Rightarrow> data \<Rightarrow> string \<Rightarrow> ip option" where
  "first_match e d cid =
     (case IPs d of None \<Rightarrow> None | Some m \<Rightarrow> find (owns m cid) (order e))"

definition GetIPById :: "env \<Rightarrow> Store \<Rightarrow> string \<Rightarrow> ip option \<times> bool" where
  "GetIPById e s cid =
     (case first_match e (sdata s) cid of
        Some a \<Rightarrow> (Some a, True)
      | None \<Rightarrow> (None, False))"

definition Last_ip :: "Store \<Rightarrow> ip option" where
  "Last_ip s = Last (sdata s)"

definition Save :: "env \<Rightarrow> Store \<Rightarrow> error option \<times> Store" where
  "Save e s =
     (case WriteFile e (sdisk s) (Marshal (sdata s)) of
        (r, dk) \<Rightarrow> (r, s\<lparr>sdisk := dk\<rparr>))"

text \<open>
  \<open>Add\<close>.  The address argument is an option: \<open>None\<close> is the slice of length 0.
  Assigning into a nil map panics in Go.
\<close>

definition Add :: "env \<Rightarrow> Store \<Rightarrow> ip option \<Rightarrow> string \<Rightarrow> string \<Rightarrow> error option \<times> Store" where
  "Add e s a cid ifn =
     (case a of
        None \<Rightarrow> (Some ErrInvalidIP, s)
      | Some x \<Rightarrow>
          (case IPs (sdata s) of
             None \<Rightarrow> (Some Panic, s)
           | Some m \<Rightarrow>
               Save e (s\<lparr>sdata := \<lparr>IPs = Some (m(x \<mapsto> \<lparr>ContainerID = cid, IfName = ifn\<rparr>)),
                                   Last = Some x\<rparr>\<rparr>)))"

definition Del :: "env \<Rightarrow> Store \<Rightarrow> string \<Rightarrow> error option \<times> Store" where
  "Del e s cid =
     (case first_match e (sdata s) cid of
        Some a \<Rightarrow>
          Save e (s\<lparr>sdata := (sdata s)\<lparr>IPs := map_option (\<lambda>m. m(a := None)) (IPs (sdata s))\<rparr>\<rparr>)
      | None \<Rightarrow> (None, s))"

definition Contain :: "Store \<Rightarrow> ip \<Rightarrow> bool" where
  "Contain s a = (case IPs (sdata s) of None \<Rightarrow> False | Some m \<Rightarrow> m a \<noteq> None)"

section \<open>IPAM\<close>

text \<open>
  \<open>net.IPNet.Contains\<close> compares the address and the network number under the mask:
  with \<open>ones\<close> leading one bits the mask keeps the value divided by \<open>2 ^ (32 - ones)\<close>.
\<close>

definition hostsize :: "IPNet \<Rightarrow> nat" where
  "hostsize n = 2 ^ (32 - ones n)"

definition Contains :: "IPNet \<Rightarrow> ip \<Rightarrow> bool" where
  "Contains n a = (a div hostsize n = base n div hostsize n)"

text \<open>
  \<open>NextIP\<close>.  \<open>cip.NextIP\<close> of the plugins library adds one to the value of the address
  as a big integer and rebuilds four bytes from it; past \<open>255.255.255.255\<close> it asks for a
  slice of negative length, which panics.
\<close>

definition NextIP :: "IPAM \<Rightarrow> ip \<Rightarrow> error + ip" where
  "NextIP ipam a =
     (let next = a + 1 in
      if 2 ^ 32 \<le> next then Inl Panic
      else if \<not> Contains (subnet ipam) next then Inl ErrIPOverflow
      else Inr next)"

text \<open>
  \<open>net.ParseCIDR\<close> on an address and a prefix length: the network keeps the address
  under the mask.  A prefix longer than 32 bits or an address outside 32 bits is malformed.
\<close>

definition ParseCIDR :: "ip \<times> nat \<Rightarrow> error + IPNet" where
  "ParseCIDR c =
     (case c of (a, n) \<Rightarrow>
        if 32 < n \<or> 2 ^ 32 \<le> a then Inl ErrConfig
        else Inr \<lparr>base = a - a mod 2 ^ (32 - n), ones = n\<rparr>)"

definition NewIPAM :: "ip \<times> nat \<Rightarrow> error + IPAM" where
  "NewIPAM c =
     (case ParseCIDR c of
        Inl err \<Rightarrow> Inl err
      | Inr ipnet \<Rightarrow>
          (case NextIP \<lparr>subnet = ipnet, gateway = 0\<rparr> (base ipnet) of
             Inl err \<Rightarrow> Inl err
           | Inr g \<Rightarrow> Inr \<lparr>subnet = ipnet, gateway = g\<rparr>))"

text \<open>
  The \<open>for\<close> loop of \<open>AllocateIP\<close>, one call per iteration.  The loop has no bound of
  its own, so the result is an option: \<open>None\<close> is a loop that never leaves.
  The Go function returns the pair \<open>(net.IP, error)\<close>.
\<close>

partial_function (option) scan ::
  "env \<Rightarrow> IPAM \<Rightarrow> string \<Rightarrow> string \<Rightarrow> ip \<Rightarrow> ip \<Rightarrow> Store
     \<Rightarrow> ((ip option \<times> error option) \<times> Store) option" where
  "scan e ipam cid ifn lastIP currIP s =
     (case NextIP ipam currIP of
        Inl err \<Rightarrow>
          if err = ErrIPOverflow \<and> lastIP \<noteq> gateway ipam
          then scan e ipam cid ifn lastIP (gateway ipam) s
          else Some ((None, Some err), s)
      | Inr nextIP \<Rightarrow>
          if \<not> Contain s nextIP then
            (case Add e s (Some nextIP) cid ifn of
               (err, s') \<Rightarrow> Some ((Some nextIP, err), s'))
          else if nextIP = lastIP then Some ((None, Some ErrNoAvailableIP), s)
          else scan e ipam cid ifn lastIP nextIP s)"

definition AllocateIP ::
  "env \<Rightarrow> IPAM \<Rightarrow> Store \<Rightarrow> string \<Rightarrow> string
     \<Rightarrow> ((ip option \<times> error option) \<times> Store) option" where
  "AllocateIP e ipam s cid ifn =
     (case LoadData e s of
        (Some err, s1) \<Rightarrow> Some ((None, Some err), s1)
      | (None, s1) \<Rightarrow>
          (case GetIPById e s1 cid of
             (a, True) \<Rightarrow> Some ((a, None), s1)
           | (_, False) \<Rightarrow>
               (let lastIP = (case Last_ip s1 of None \<Rightarrow> gateway ipam | Some l \<Rightarrow> l)
                in scan e ipam cid ifn lastIP lastIP s1)))"

definition ReleaseIP :: "env \<Rightarrow> Store \<Rightarrow> string \<Rightarrow> error option \<times> Store" where
  "ReleaseIP e s cid =
     (case LoadData e s of
        (Some err, s1) \<Rightarrow> (Some err, s1)
      | (None, s1) \<Rightarrow> Del e s1 cid)"

definition CheckIP :: "env \<Rightarrow> Store \<Rightarrow> string \<Rightarrow> (ip option \<times> error option) \<times> Store" where
  "CheckIP e s cid =
     (case LoadData e s of
        (Some err, s1) \<Rightarrow> ((None, Some err), s1)
      | (None, s1) \<Rightarrow>
          (case GetIPById e s1 cid of
             (a, True) \<Rightarrow> ((a, None), s1)
           | (_, False) \<Rightarrow> ((None, Some ErrNotFound), s1)))"

section \<open>Sequences of calls\<close>




section \<open>Properties of a document\<close>








section \<open>Concrete inputs\<close>

text \<open>Dotted-quad notation: \<open>ip4 10 244 0 2\<close> is the address \<open>10.244.0.2\<close>.\<close>

definition ip4 :: "nat \<Rightarrow> nat \<Rightarrow> nat \<Rightarrow> nat \<Rightarrow> ip" where
  "ip4 a b c d = ((a * 256 + b) * 256 + c) * 256 + d"

text \<open>An environment in which no file operation fails and \<open>range\<close> visits \<open>ks\<close>.\<close>

definition quiet :: "ip list \<Rightarrow> env" where
  "quiet ks = \<lparr>read_fails = False, create_fails = False, write_fails = False, order = ks\<rparr>"

text \<open>The disk before the first run: no data file yet.\<close>

definition absent :: disk where
  "absent = \<lparr>content = None, writes = 0\<rparr>"

definition rec_of :: "string \<Rightarrow> containerNetInfo" where
  "rec_of c = \<lparr>ContainerID = c, IfName = ''eth0''\<rparr>"

text \<open>A store whose memory and file both hold the map \<open>m\<close> and the cursor \<open>l\<close>.\<close>

definition holding :: "(ip \<rightharpoonup> containerNetInfo) \<Rightarrow> ip option \<Rightarrow> nat \<Rightarrow> Store" where
  "holding m l n =
     \<lparr>sdata = \<lparr>IPs = Some m, Last = l\<rparr>,
      sdisk = \<lparr>content = Some (Doc \<lparr>IPs = Some m, Last = l\<rparr>), writes = n\<rparr>\<rparr>"

text \<open>The subnet \<open>10.244.0.0/30\<close> with its gateway \<open>10.244.0.1\<close>.\<close>

definition net30 :: IPAM where
  "net30 = \<lparr>subnet = \<lparr>base = ip4 10 244 0 0, ones = 30\<rparr>, gateway = ip4 10 244 0 1\<rparr>"

definition env30 :: env where
  "env30 = quiet [ip4 10 244 0 0, ip4 10 244 0 1, ip4 10 244 0 2, ip4 10 244 0 3]"


definition stale30 :: Store where
  "stale30 = holding [ip4 10 244 0 2 \<mapsto> rec_of ''c1'', ip4 10 244 0 3 \<mapsto> rec_of ''c2'']
               (Some (ip4 10 244 0 9)) 3"

definition gw_held :: Store where
  "gw_held = holding [ip4 10 244 0 1 \<mapsto> rec_of ''c1''] (Some (ip4 10 244 0 1)) 2"

definition full30 :: Store where
  "full30 = holding [ip4 10 244 0 2 \<mapsto> rec_of ''c1'', ip4 10 244 0 3 \<mapsto> rec_of ''c2''] None 3"

definition freed30 :: Store where
  "freed30 = holding [ip4 10 244 0 3 \<mapsto> rec_of ''c2''] (Some (ip4 10 244 0 3)) 4"


section \<open>Evaluation on the subnet 10.244.0.0/30\<close>

lemmas store_defs = LoadData_def ReadFile_def Create_def Write_def WriteFile_def empty_object_def
  install_def GetIPById_def first_match_def owns_def Last_ip_def Save_def Add_def Contain_def
  Marshal_def Unmarshal_def NewStore_def Del_def

lemmas ipam_defs = NewIPAM_def ParseCIDR_def NextIP_def Contains_def hostsize_def AllocateIP_def
  ReleaseIP_def CheckIP_def

lemmas input_defs = ip4_def quiet_def absent_def rec_of_def holding_def net30_def env30_def

lemma new30: "NewIPAM (ip4 10 244 0 0, 30) = Inr net30"
  by (simp add: ipam_defs input_defs)

lemma alloc30_1:
  "AllocateIP env30 net30 (NewStore absent) ''c1'' ''eth0'' =
     Some ((Some (ip4 10 244 0 2), None),
           holding [ip4 10 244 0 2 \<mapsto> rec_of ''c1''] (Some (ip4 10 244 0 2)) 2)"
  by (simp add: ipam_defs store_defs input_defs scan.simps)

lemma alloc30_2:
  "AllocateIP env30 net30 (holding [ip4 10 244 0 2 \<mapsto> rec_of ''c1''] (Some (ip4 10 244 0 2)) 2)
       ''c2'' ''eth0'' =
     Some ((Some (ip4 10 244 0 3), None),
           holding [ip4 10 244 0 2 \<mapsto> rec_of ''c1'', ip4 10 244 0 3 \<mapsto> rec_of ''c2'']
             (Some (ip4 10 244 0 3)) 3)"
  by (simp add: ipam_defs store_defs input_defs scan.simps)

lemma alloc30_3:
  "AllocateIP env30 net30
       (holding [ip4 10 244 0 2 \<mapsto> rec_of ''c1'', ip4 10 244 0 3 \<mapsto> rec_of ''c2'']
          (Some (ip4 10 244 0 3)) 3)
       ''c3'' ''eth0'' =
     Some ((None, Some ErrNoAvailableIP),
           holding [ip4 10 244 0 2 \<mapsto> rec_of ''c1'', ip4 10 244 0 3 \<mapsto> rec_of ''c2'']
             (Some (ip4 10 244 0 3)) 3)"
  by (simp add: ipam_defs store_defs input_defs scan.simps)

text \<open>
  C2: evaluation at the failing input.  On \<open>10.244.0.0/30\<close> with no data file the first
  container receives \<open>10.244.0.2\<close>; the second one is not refused: it receives
  \<open>10.244.0.3\<close>, the last address of the block, because \<open>NextIP\<close> only asks that
  the candidate lies inside the block.
\<close>

theorem second_container_gets_broadcast:
  "NewIPAM (ip4 10 244 0 0, 30) = Inr net30 \<and>
   map_option fst (AllocateIP env30 net30 (NewStore absent) ''c1'' ''eth0'') =
     Some (Some (ip4 10 244 0 2), None) \<and>
   map_option fst (AllocateIP env30 net30
       (snd (the (AllocateIP env30 net30 (NewStore absent) ''c1'' ''eth0''))) ''c2'' ''eth0'') =
     Some (Some (ip4 10 244 0 3), None) \<and>
   map_option fst (AllocateIP env30 net30
       (snd (the (AllocateIP env30 net30 (NewStore absent) ''c1'' ''eth0''))) ''c2'' ''eth0'') \<noteq>
     Some (None, Some ErrNoAvailableIP)"
  by (simp add: new30 alloc30_1 alloc30_2)

section \<open>The record of a container\<close>

lemma find_none_iff: "(find P xs = None) = (\<forall>x\<in>set xs. \<not> P x)"
  by (induction xs) auto

lemma first_match_none:
  assumes "\<forall>m a. IPs d = Some m \<longrightarrow> \<not> owns m cid a"
  shows "first_match e d cid = None"
  using assms by (cases "IPs d") (simp_all add: first_match_def find_none_iff)

lemma first_match_unique:
  assumes "IPs d = Some m" and "\<forall>b. owns m cid b = (b = a)" and "a \<in> set (order e)"
  shows "first_match e d cid = Some a"
proof -
  have "\<exists>x. find (owns m cid) (order e) = Some x"
    using assms(2,3) by (cases "find (owns m cid) (order e)") (auto simp: find_none_iff)
  then obtain x where x: "find (owns m cid) (order e) = Some x" ..
  then have "owns m cid x" by (auto simp: find_Some_iff)
  with assms(2) have "x = a" by simp
  with x show ?thesis using assms(1) by (simp add: first_match_def)
qed

section \<open>Loading the data file\<close>

text \<open>
  C7: when no file operation fails and the data file does not exist, \<open>LoadData\<close> succeeds
  and leaves a file holding the empty object, which decodes to a document; when the file
  exists and does not parse, \<open>LoadData\<close> returns the parse error and the store, file
  included, is as before; whenever \<open>LoadData\<close> succeeds, the map in memory is not nil.
\<close>

theorem LoadData_cases:
  "(\<not> read_fails e \<and> \<not> create_fails e \<and> \<not> write_fails e \<and> content (sdisk s) = None \<longrightarrow>
      fst (LoadData e s) = None \<and>
      content (sdisk (snd (LoadData e s))) = Some empty_object \<and>
      Unmarshal empty_object = Inr (Some \<lparr>IPs = None, Last = None\<rparr>)) \<and>
   (\<not> read_fails e \<and> content (sdisk s) = Some f \<and> Unmarshal f = Inl err \<longrightarrow>
      LoadData e s = (Some err, s)) \<and>
   (fst (LoadData e s) = None \<longrightarrow> IPs (sdata (snd (LoadData e s))) \<noteq> None)"
  by (auto simp: LoadData_def ReadFile_def Create_def Write_def install_def Unmarshal_def
      empty_object_def Let_def split: option.splits sum.splits if_splits filedata.splits prod.splits)

theorem LoadData_cases_witness:
  "fst (LoadData (quiet []) (NewStore absent)) = None \<and>
   content (sdisk (snd (LoadData (quiet []) (NewStore absent)))) = Some empty_object \<and>
   LoadData (quiet []) (NewStore \<lparr>content = Some Corrupt, writes = 1\<rparr>) =
     (Some ErrParse, NewStore \<lparr>content = Some Corrupt, writes = 1\<rparr>) \<and>
   IPs (sdata (snd (LoadData (quiet []) (NewStore absent)))) \<noteq> None"
  using LoadData_cases [of "quiet []" "NewStore absent" Corrupt ErrParse]
    LoadData_cases [of "quiet []" "NewStore \<lparr>content = Some Corrupt, writes = 1\<rparr>" Corrupt ErrParse]
  by (simp add: quiet_def absent_def NewStore_def Unmarshal_def)

section \<open>Releasing\<close>

text \<open>
  C8: when no record of the store belongs to the container, \<open>Del\<close> returns no error; and
  when \<open>LoadData\<close> succeeds and no loaded record belongs to the container, \<open>ReleaseIP\<close>
  returns no error and leaves the loaded store as it is.
\<close>

theorem release_without_record:
  "((\<forall>m a. IPs (sdata s) = Some m \<longrightarrow> \<not> owns m cid a) \<longrightarrow> fst (Del e s cid) = None) \<and>
   (LoadData e s = (None, s1) \<and> (\<forall>m a. IPs (sdata s1) = Some m \<longrightarrow> \<not> owns m cid a) \<longrightarrow>
      ReleaseIP e s cid = (None, s1))"
  by (auto simp: Del_def ReleaseIP_def first_match_none)

theorem release_without_record_witness:
  "fst (Del env30 (holding [ip4 10 244 0 2 \<mapsto> rec_of ''c1''] (Some (ip4 10 244 0 2)) 2) ''c9'') = None \<and>
   ReleaseIP env30 (holding [ip4 10 244 0 2 \<mapsto> rec_of ''c1''] (Some (ip4 10 244 0 2)) 2) ''c9'' =
     (None, holding [ip4 10 244 0 2 \<mapsto> rec_of ''c1''] (Some (ip4 10 244 0 2)) 2)"
proof -
  let ?s = "holding [ip4 10 244 0 2 \<mapsto> rec_of ''c1''] (Some (ip4 10 244 0 2)) 2"
  have h: "\<forall>m a. IPs (sdata ?s) = Some m \<longrightarrow> \<not> owns m ''c9'' a"
    by (simp add: holding_def owns_def rec_of_def)
  have l: "LoadData env30 ?s = (None, ?s)"
    by (simp add: store_defs input_defs)
  show ?thesis
    using release_without_record [of ?s "''c9''" env30 ?s] h l by simp
qed

text \<open>
  C10: when no record of the store belongs to the container, \<open>Del\<close> returns the store it
  was given: the file, its content and its count of writes, is untouched.
\<close>

theorem Del_no_match_no_save:
  "(\<forall>m a. IPs (sdata s) = Some m \<longrightarrow> \<not> owns m cid a) \<Longrightarrow>
     sdisk (snd (Del e s cid)) = sdisk s \<and> Del e s cid = (None, s)"
  by (simp add: Del_def first_match_none)

theorem Del_no_match_no_save_witness:
  "sdisk (snd (Del env30 (holding [ip4 10 244 0 2 \<mapsto> rec_of ''c1''] (Some (ip4 10 244 0 2)) 2) ''c9'')) =
     \<lparr>content = Some (Doc \<lparr>IPs = Some [ip4 10 244 0 2 \<mapsto> rec_of ''c1''],
                            Last = Some (ip4 10 244 0 2)\<rparr>), writes = 2\<rparr>"
proof -
  let ?s = "holding [ip4 10 244 0 2 \<mapsto> rec_of ''c1''] (Some (ip4 10 244 0 2)) 2"
  have h: "\<forall>m a. IPs (sdata ?s) = Some m \<longrightarrow> \<not> owns m ''c9'' a"
    by (simp add: holding_def owns_def rec_of_def)
  show ?thesis
    using Del_no_match_no_save [of ?s "''c9''" env30, OF h] by (simp add: holding_def)
qed

section \<open>Allocating for a container that holds an address\<close>

text \<open>
  C3: let the data file hold a document in which the container owns exactly the address
  \<open>a\<close>, and let the file be readable.  Then \<open>AllocateIP\<close> returns \<open>a\<close> with no error,
  and the store afterwards is the loaded document with the file untouched (no record added,
  cursor unchanged); a second call right after it returns \<open>a\<close> again and changes nothing.
\<close>

theorem allocate_idempotent:
  assumes "\<not> read_fails e" and "\<not> read_fails e'"
    and "content (sdisk s) = Some (Doc d)" and "IPs d = Some m"
    and "\<forall>b. owns m cid b = (b = a)"
    and "a \<in> set (order e)" and "a \<in> set (order e')"
  shows "AllocateIP e ipam s cid ifn = Some ((Some a, None), s\<lparr>sdata := d\<rparr>) \<and>
         AllocateIP e' ipam (s\<lparr>sdata := d\<rparr>) cid ifn = Some ((Some a, None), s\<lparr>sdata := d\<rparr>)"
proof -
  have l: "LoadData e s = (None, s\<lparr>sdata := d\<rparr>)"
    "LoadData e' (s\<lparr>sdata := d\<rparr>) = (None, s\<lparr>sdata := d\<rparr>)"
    using assms(1-4) by (simp_all add: LoadData_def ReadFile_def Unmarshal_def install_def)
  have g: "GetIPById e (s\<lparr>sdata := d\<rparr>) cid = (Some a, True)"
    "GetIPById e' (s\<lparr>sdata := d\<rparr>) cid = (Some a, True)"
    using first_match_unique [OF assms(4,5,6)] first_match_unique [OF assms(4,5,7)]
    by (simp_all add: GetIPById_def)
  show ?thesis by (simp add: AllocateIP_def l g)
qed

theorem allocate_idempotent_witness:
  "AllocateIP env30 net30 (holding [ip4 10 244 0 2 \<mapsto> rec_of ''c1''] (Some (ip4 10 244 0 2)) 2)
       ''c1'' ''eth0'' =
     Some ((Some (ip4 10 244 0 2), None),
           holding [ip4 10 244 0 2 \<mapsto> rec_of ''c1''] (Some (ip4 10 244 0 2)) 2)"
proof -
  let ?m = "[ip4 10 244 0 2 \<mapsto> rec_of ''c1'']"
  let ?d = "\<lparr>IPs = Some ?m, Last = Some (ip4 10 244 0 2)\<rparr>"
  let ?s = "holding ?m (Some (ip4 10 244 0 2)) 2"
  have 1: "\<not> read_fails env30" by (simp add: env30_def quiet_def)
  have 3: "content (sdisk ?s) = Some (Doc ?d)" by (simp add: holding_def)
  have 4: "IPs ?d = Some ?m" by simp
  have 5: "\<forall>b. owns ?m ''c1'' b = (b = ip4 10 244 0 2)"
    by (simp add: owns_def rec_of_def)
  have 6: "ip4 10 244 0 2 \<in> set (order env30)" by (simp add: env30_def quiet_def)
  have "?s\<lparr>sdata := ?d\<rparr> = ?s" by (simp add: holding_def)
  then show ?thesis
    using allocate_idempotent [OF 1 1 3 4 5 6 6, of net30 "''eth0''"] by simp
qed

section \<open>Arithmetic of a subnet\<close>

lemma Contains_aligned:
  assumes "base n mod hostsize n = 0"
  shows "Contains n x = (base n \<le> x \<and> x < base n + hostsize n)"
proof -
  have pos: "0 < hostsize n" by (simp add: hostsize_def)
  from assms obtain q where q: "base n = hostsize n * q" by (auto simp: mod_eq_0_iff_dvd)
  have "base n div hostsize n = q" using q pos by simp
  moreover have "(x div hostsize n = q) = (hostsize n * q \<le> x \<and> x < hostsize n * q + hostsize n)"
  proof
    assume "x div hostsize n = q"
    then show "hostsize n * q \<le> x \<and> x < hostsize n * q + hostsize n"
      using pos by (metis add.commute dividend_less_times_div mult.commute times_div_less_eq_dividend)
  next
    assume "hostsize n * q \<le> x \<and> x < hostsize n * q + hostsize n"
    then show "x div hostsize n = q"
      using pos by (intro div_nat_eqI) (simp_all add: mult.commute)
  qed
  ultimately show ?thesis by (simp add: Contains_def q)
qed

lemma NewIPAM_shape:
  assumes "NewIPAM (a, n) = Inr ipam"
  shows "base (subnet ipam) mod hostsize (subnet ipam) = 0"
    and "gateway ipam = base (subnet ipam) + 1"
    and "ones (subnet ipam) = n" and "n < 32"
    and "2 \<le> hostsize (subnet ipam)"
    and "gateway ipam < 2 ^ 32"
proof -
  let ?sz = "(2::nat) ^ (32 - n)"
  let ?net = "\<lparr>base = a - a mod ?sz, ones = n\<rparr>"
  from assms have n32: "n \<le> 32" and a32: "a < 2 ^ 32"
    by (auto simp: NewIPAM_def ParseCIDR_def split: if_splits)
  have al: "(a - a mod ?sz) mod ?sz = 0" by (simp add: minus_mod_eq_mult_div)
  have al': "base ?net mod hostsize ?net = 0" using al by (simp add: hostsize_def)
  from assms n32 a32 have nx: "NextIP \<lparr>subnet = ?net, gateway = 0\<rparr> (base ?net) = Inr (gateway ipam)"
    and sub: "subnet ipam = ?net"
    by (auto simp: NewIPAM_def ParseCIDR_def split: if_splits sum.splits)
  from nx have g: "gateway ipam = base ?net + 1" and c: "Contains ?net (base ?net + 1)"
    and lt: "base ?net + 1 < 2 ^ 32"
    by (auto simp: NextIP_def Let_def split: if_splits)
  from c have "base ?net + 1 < base ?net + hostsize ?net"
    using Contains_aligned [OF al'] by simp
  then have hs: "2 \<le> hostsize ?net" by simp
  then have "n < 32" by (cases "n = 32") (use n32 in \<open>auto simp: hostsize_def\<close>)
  then show "n < 32" .
  show "base (subnet ipam) mod hostsize (subnet ipam) = 0" using al' sub by simp
  show "gateway ipam = base (subnet ipam) + 1" using g sub by simp
  show "ones (subnet ipam) = n" using sub by simp
  show "2 \<le> hostsize (subnet ipam)" using hs sub by simp
  show "gateway ipam < 2 ^ 32" using g lt by simp
qed

lemma NextIP_Inr: "NextIP ipam a = Inr b \<Longrightarrow> b = a + 1 \<and> Contains (subnet ipam) b \<and> b < 2 ^ 32"
  by (auto simp: NextIP_def Let_def split: if_splits)

lemma NextIP_inside:
  assumes "base (subnet ipam) mod hostsize (subnet ipam) = 0"
    and "base (subnet ipam) \<le> Suc x" and "Suc x < base (subnet ipam) + hostsize (subnet ipam)"
    and "base (subnet ipam) + hostsize (subnet ipam) \<le> 2 ^ 32"
  shows "NextIP ipam x = Inr (Suc x)"
  using assms by (simp add: NextIP_def Contains_aligned)

lemma NextIP_last:
  assumes "base (subnet ipam) mod hostsize (subnet ipam) = 0"
    and "Suc x = base (subnet ipam) + hostsize (subnet ipam)"
    and "base (subnet ipam) + hostsize (subnet ipam) < 2 ^ 32"
  shows "NextIP ipam x = Inl ErrIPOverflow"
  using assms by (simp add: NextIP_def Contains_aligned)

section \<open>The scan over allocated addresses\<close>

lemma scan_skip:
  assumes "\<forall>x. cur < x \<and> x \<le> t \<longrightarrow>
             Contain s x \<and> x \<noteq> lastIP \<and> Contains (subnet ipam) x \<and> x < 2 ^ 32"
    and "cur \<le> t"
  shows "scan e ipam cid ifn lastIP cur s = scan e ipam cid ifn lastIP t s"
  using assms
proof (induction "t - cur" arbitrary: cur)
  case 0
  then show ?case by simp
next
  case (Suc k)
  then have lt: "cur < t" by simp
  from Suc.prems(1) have "Suc cur \<le> t \<longrightarrow> Contain s (Suc cur) \<and> Suc cur \<noteq> lastIP \<and>
      Contains (subnet ipam) (Suc cur) \<and> Suc cur < 2 ^ 32"
    by (metis lessI)
  with lt have f: "Contain s (Suc cur)" "Suc cur \<noteq> lastIP"
    "Contains (subnet ipam) (Suc cur)" "Suc cur < 2 ^ 32"
    by simp_all
  have "scan e ipam cid ifn lastIP cur s = scan e ipam cid ifn lastIP (Suc cur) s"
    using f by (subst scan.simps) (simp add: NextIP_def)
  also have "\<dots> = scan e ipam cid ifn lastIP t s"
    using Suc.hyps(2) Suc.prems lt by (intro Suc.hyps(1)) auto
  finally show ?case .
qed

text \<open>
  From \<open>cur\<close>, over allocated addresses only, the scan reaches the end of the block and overflows.
\<close>

lemma scan_to_overflow:
  assumes al: "base (subnet ipam) mod hostsize (subnet ipam) = 0"
    and top: "base (subnet ipam) + hostsize (subnet ipam) < 2 ^ 32"
    and cur: "base (subnet ipam) \<le> cur" "cur < base (subnet ipam) + hostsize (subnet ipam)"
    and full: "\<forall>x. cur < x \<and> x < base (subnet ipam) + hostsize (subnet ipam) \<longrightarrow>
                 Contain s x \<and> x \<noteq> lastIP"
  shows "scan e ipam cid ifn lastIP cur s =
           (if lastIP \<noteq> gateway ipam then scan e ipam cid ifn lastIP (gateway ipam) s
            else Some ((None, Some ErrIPOverflow), s))"
proof -
  from cur obtain t where t: "Suc t = base (subnet ipam) + hostsize (subnet ipam)"
    by (cases "base (subnet ipam) + hostsize (subnet ipam)") auto
  with cur have ct: "cur \<le> t" by simp
  have "\<forall>x. cur < x \<and> x \<le> t \<longrightarrow>
          Contain s x \<and> x \<noteq> lastIP \<and> Contains (subnet ipam) x \<and> x < 2 ^ 32"
    using full cur top t by (auto simp: Contains_aligned [OF al])
  from scan_skip [OF this ct]
  have "scan e ipam cid ifn lastIP cur s = scan e ipam cid ifn lastIP t s" .
  also have "\<dots> = (if lastIP \<noteq> gateway ipam then scan e ipam cid ifn lastIP (gateway ipam) s
            else Some ((None, Some ErrIPOverflow), s))"
    by (subst scan.simps) (simp add: NextIP_last [OF al t top])
  finally show ?thesis .
qed

text \<open>
  From \<open>cur\<close>, over allocated addresses, the scan takes the first free address \<open>f\<close>.
\<close>

lemma scan_to_free:
  assumes al: "base (subnet ipam) mod hostsize (subnet ipam) = 0"
    and top: "base (subnet ipam) + hostsize (subnet ipam) \<le> 2 ^ 32"
    and cur: "base (subnet ipam) \<le> cur" "cur < f" "f < base (subnet ipam) + hostsize (subnet ipam)"
    and full: "\<forall>x. cur < x \<and> x < f \<longrightarrow> Contain s x \<and> x \<noteq> lastIP"
    and free: "\<not> Contain s f"
  shows "scan e ipam cid ifn lastIP cur s =
           Some ((Some f, fst (Add e s (Some f) cid ifn)), snd (Add e s (Some f) cid ifn))"
proof -
  from cur obtain p where p: "f = Suc p" by (cases f) auto
  with cur have cp: "cur \<le> p" by simp
  have "\<forall>x. cur < x \<and> x \<le> p \<longrightarrow>
          Contain s x \<and> x \<noteq> lastIP \<and> Contains (subnet ipam) x \<and> x < 2 ^ 32"
    using full cur top p by (auto simp: Contains_aligned [OF al])
  from scan_skip [OF this cp]
  have "scan e ipam cid ifn lastIP cur s = scan e ipam cid ifn lastIP p s" .
  also have nx: "NextIP ipam p = Inr (Suc p)"
    using cur top p by (intro NextIP_inside [OF al]) simp_all
  have "scan e ipam cid ifn lastIP p s =
      Some ((Some f, fst (Add e s (Some f) cid ifn)), snd (Add e s (Some f) cid ifn))"
    using free p by (subst scan.simps) (simp add: nx split: prod.splits)
  finally show ?thesis .
qed


section \<open>Where the scan starts and what an overflow does\<close>

text \<open>
  C4: let \<open>LoadData\<close> succeed and the container have no record.  Then \<open>AllocateIP\<close> is
  the scan started at the cursor, or at the gateway when there is no cursor.  When advancing
  the candidate overflows and the start is not the gateway, the scan goes on from the
  gateway; when it overflows and the start is the gateway, the call returns the overflow
  error and the store as loaded.  Two consequences for an allocator made by \<open>NewIPAM\<close>
  on a block that ends before \<open>255.255.255.255\<close>: with the start at the gateway and every
  later address taken, the call returns the overflow error; with the start \<open>start\<close> after
  the gateway, every address after \<open>start\<close> taken and \<open>f\<close> the first free address after
  the gateway, the call wraps and commits \<open>f\<close>.
\<close>

theorem scan_start_and_overflow:
  assumes "LoadData e s = (None, s1)" and "first_match e (sdata s1) cid = None"
    and "start = (case Last (sdata s1) of None \<Rightarrow> gateway ipam | Some l \<Rightarrow> l)"
  shows "AllocateIP e ipam s cid ifn = scan e ipam cid ifn start start s1 \<and>
         (NextIP ipam cur = Inl ErrIPOverflow \<and> start \<noteq> gateway ipam \<longrightarrow>
            scan e ipam cid ifn start cur s1 = scan e ipam cid ifn start (gateway ipam) s1) \<and>
         (NextIP ipam cur = Inl ErrIPOverflow \<and> start = gateway ipam \<longrightarrow>
            scan e ipam cid ifn start cur s1 = Some ((None, Some ErrIPOverflow), s1)) \<and>
         (NewIPAM c = Inr ipam \<and> base (subnet ipam) + hostsize (subnet ipam) < 2 ^ 32 \<and>
          start = gateway ipam \<and>
          (\<forall>x. gateway ipam < x \<and> x < base (subnet ipam) + hostsize (subnet ipam) \<longrightarrow> Contain s1 x) \<longrightarrow>
            AllocateIP e ipam s cid ifn = Some ((None, Some ErrIPOverflow), s1)) \<and>
         (NewIPAM c = Inr ipam \<and> base (subnet ipam) + hostsize (subnet ipam) < 2 ^ 32 \<and>
          gateway ipam < start \<and> start < base (subnet ipam) + hostsize (subnet ipam) \<and>
          (\<forall>x. start < x \<and> x < base (subnet ipam) + hostsize (subnet ipam) \<longrightarrow> Contain s1 x) \<and>
          gateway ipam < f \<and> f < start \<and> \<not> Contain s1 f \<and>
          (\<forall>x. gateway ipam < x \<and> x < f \<longrightarrow> Contain s1 x) \<longrightarrow>
            AllocateIP e ipam s cid ifn =
              Some ((Some f, fst (Add e s1 (Some f) cid ifn)), snd (Add e s1 (Some f) cid ifn)))"
proof -
  have A: "AllocateIP e ipam s cid ifn = scan e ipam cid ifn start start s1"
    using assms by (simp add: AllocateIP_def GetIPById_def Last_ip_def Let_def)
  have B: "NextIP ipam cur = Inl ErrIPOverflow \<and> start \<noteq> gateway ipam \<longrightarrow>
            scan e ipam cid ifn start cur s1 = scan e ipam cid ifn start (gateway ipam) s1"
    by (subst scan.simps) simp
  have C: "NextIP ipam cur = Inl ErrIPOverflow \<and> start = gateway ipam \<longrightarrow>
            scan e ipam cid ifn start cur s1 = Some ((None, Some ErrIPOverflow), s1)"
    by (subst scan.simps) simp
  have D: "AllocateIP e ipam s cid ifn = Some ((None, Some ErrIPOverflow), s1)"
    if n: "NewIPAM c = Inr ipam" and top: "base (subnet ipam) + hostsize (subnet ipam) < 2 ^ 32"
      and st: "start = gateway ipam"
      and full: "\<forall>x. gateway ipam < x \<and> x < base (subnet ipam) + hostsize (subnet ipam) \<longrightarrow> Contain s1 x"
  proof -
    obtain a k where c: "c = (a, k)" by (cases c)
    note sh = NewIPAM_shape [OF n [unfolded c]]
    have "scan e ipam cid ifn (gateway ipam) (gateway ipam) s1 =
          Some ((None, Some ErrIPOverflow), s1)"
      using sh(2,5) full by (subst scan_to_overflow [OF sh(1) top]) auto
    then show ?thesis by (simp add: A st)
  qed
  have E: "AllocateIP e ipam s cid ifn =
              Some ((Some f, fst (Add e s1 (Some f) cid ifn)), snd (Add e s1 (Some f) cid ifn))"
    if n: "NewIPAM c = Inr ipam" and top: "base (subnet ipam) + hostsize (subnet ipam) < 2 ^ 32"
      and st: "gateway ipam < start" "start < base (subnet ipam) + hostsize (subnet ipam)"
      and full: "\<forall>x. start < x \<and> x < base (subnet ipam) + hostsize (subnet ipam) \<longrightarrow> Contain s1 x"
      and f: "gateway ipam < f" "f < start" "\<not> Contain s1 f"
      and below: "\<forall>x. gateway ipam < x \<and> x < f \<longrightarrow> Contain s1 x"
  proof -
    obtain a k where c: "c = (a, k)" by (cases c)
    note sh = NewIPAM_shape [OF n [unfolded c]]
    have top': "base (subnet ipam) + hostsize (subnet ipam) \<le> 2 ^ 32" using top by simp
    have "scan e ipam cid ifn start start s1 = scan e ipam cid ifn start (gateway ipam) s1"
      using sh(2) st full by (subst scan_to_overflow [OF sh(1) top]) auto
    also have "\<dots> = Some ((Some f, fst (Add e s1 (Some f) cid ifn)), snd (Add e s1 (Some f) cid ifn))"
      using sh(2) st f below by (intro scan_to_free [OF sh(1) top']) auto
    finally show ?thesis by (simp add: A)
  qed
  from A B C D E show ?thesis by blast
qed

theorem scan_start_and_overflow_witness:
  "AllocateIP env30 net30 full30 ''c3'' ''eth0'' = Some ((None, Some ErrIPOverflow), full30) \<and>
   AllocateIP env30 net30 freed30 ''c3'' ''eth0'' =
     Some ((Some (ip4 10 244 0 2), None),
           holding [ip4 10 244 0 3 \<mapsto> rec_of ''c2'', ip4 10 244 0 2 \<mapsto> rec_of ''c3'']
             (Some (ip4 10 244 0 2)) 5)"
proof -
  have top: "base (subnet net30) + hostsize (subnet net30) < 2 ^ 32"
    by (simp add: net30_def hostsize_def ip4_def)
  have l1: "LoadData env30 full30 = (None, full30)"
    by (simp add: store_defs input_defs full30_def)
  have f1: "first_match env30 (sdata full30) ''c3'' = None"
    by (simp add: store_defs input_defs full30_def)
  have s1: "gateway net30 = (case Last (sdata full30) of None \<Rightarrow> gateway net30 | Some l \<Rightarrow> l)"
    by (simp add: full30_def holding_def)
  have c1: "\<forall>x. gateway net30 < x \<and> x < base (subnet net30) + hostsize (subnet net30) \<longrightarrow>
              Contain full30 x"
  proof (intro allI impI)
    fix x assume "gateway net30 < x \<and> x < base (subnet net30) + hostsize (subnet net30)"
    then have "183762945 < x \<and> x < 183762948" by (simp add: net30_def hostsize_def ip4_def)
    then have "x = 183762946 \<or> x = 183762947" by arith
    then show "Contain full30 x" by (auto simp: Contain_def full30_def holding_def ip4_def)
  qed
  have l2: "LoadData env30 freed30 = (None, freed30)"
    by (simp add: store_defs input_defs freed30_def)
  have f2: "first_match env30 (sdata freed30) ''c3'' = None"
    by (simp add: store_defs input_defs freed30_def)
  have s2: "ip4 10 244 0 3 = (case Last (sdata freed30) of None \<Rightarrow> gateway net30 | Some l \<Rightarrow> l)"
    by (simp add: freed30_def holding_def)
  have c2: "gateway net30 < ip4 10 244 0 3 \<and>
            ip4 10 244 0 3 < base (subnet net30) + hostsize (subnet net30) \<and>
            (\<forall>x. ip4 10 244 0 3 < x \<and> x < base (subnet net30) + hostsize (subnet net30) \<longrightarrow>
               Contain freed30 x) \<and>
            gateway net30 < ip4 10 244 0 2 \<and> ip4 10 244 0 2 < ip4 10 244 0 3 \<and>
            \<not> Contain freed30 (ip4 10 244 0 2) \<and>
            (\<forall>x. gateway net30 < x \<and> x < ip4 10 244 0 2 \<longrightarrow> Contain freed30 x)"
    by (simp add: net30_def hostsize_def ip4_def Contain_def freed30_def holding_def)
  have a2: "Add env30 freed30 (Some (ip4 10 244 0 2)) ''c3'' ''eth0'' =
      (None, holding [ip4 10 244 0 3 \<mapsto> rec_of ''c2'', ip4 10 244 0 2 \<mapsto> rec_of ''c3'']
             (Some (ip4 10 244 0 2)) 5)"
    by (simp add: store_defs input_defs freed30_def)
  from scan_start_and_overflow [OF l1 f1 s1, where c = "(ip4 10 244 0 0, 30)" and ifn = "''eth0''"] new30 top c1
  have A: "AllocateIP env30 net30 full30 ''c3'' ''eth0'' = Some ((None, Some ErrIPOverflow), full30)"
    by blast
  from scan_start_and_overflow [OF l2 f2 s2, where c = "(ip4 10 244 0 0, 30)" and ifn = "''eth0''"
      and f = "ip4 10 244 0 2"]
    new30 top c2
  have B: "AllocateIP env30 net30 freed30 ''c3'' ''eth0'' =
      Some ((Some (ip4 10 244 0 2), fst (Add env30 freed30 (Some (ip4 10 244 0 2)) ''c3'' ''eth0'')),
            snd (Add env30 freed30 (Some (ip4 10 244 0 2)) ''c3'' ''eth0''))"
    by blast
  from A B show ?thesis by (simp add: a2)
qed

section \<open>Exhaustion\<close>













section \<open>A cursor outside the subnet\<close>

lemma scan_stale30:
  assumes "scan e ipam cid ifn lastIP currIP s = Some y"
  shows "\<not> (ipam = net30 \<and> s = stale30 \<and> lastIP = ip4 10 244 0 9 \<and>
            currIP \<in> {ip4 10 244 0 9, ip4 10 244 0 1, ip4 10 244 0 2, ip4 10 244 0 3})"
proof (rule scan.raw_induct [where P = "\<lambda>e ipam cid ifn lastIP currIP s y.
     \<not> (ipam = net30 \<and> s = stale30 \<and> lastIP = ip4 10 244 0 9 \<and>
            currIP \<in> {ip4 10 244 0 9, ip4 10 244 0 1, ip4 10 244 0 2, ip4 10 244 0 3})"],
    goal_cases)
  case (1 f e ipam cid ifn lastIP currIP s y)
  show ?case
  proof
    assume a: "ipam = net30 \<and> s = stale30 \<and> lastIP = ip4 10 244 0 9 \<and>
            currIP \<in> {ip4 10 244 0 9, ip4 10 244 0 1, ip4 10 244 0 2, ip4 10 244 0 3}"
    then consider "currIP = ip4 10 244 0 9" | "currIP = ip4 10 244 0 1" | "currIP = ip4 10 244 0 2"
      | "currIP = ip4 10 244 0 3" by auto
    then have "\<exists>c \<in> {ip4 10 244 0 1, ip4 10 244 0 2, ip4 10 244 0 3}.
        f e net30 cid ifn (ip4 10 244 0 9) c stale30 = Some y"
      using a 1(2) by cases (simp_all add: ipam_defs input_defs stale30_def Contain_def)
    then obtain c where "c \<in> {ip4 10 244 0 1, ip4 10 244 0 2, ip4 10 244 0 3}"
      and "f e net30 cid ifn (ip4 10 244 0 9) c stale30 = Some y" by blast
    with 1(1) [of e net30 cid ifn "ip4 10 244 0 9" c stale30 y] show False by auto
  qed
qed (rule assms)

text \<open>
  C6: evaluation at a failing input.  The subnet is \<open>10.244.0.0/30\<close>; the data file holds
  records for \<open>10.244.0.2\<close> and \<open>10.244.0.3\<close> and the cursor \<open>10.244.0.9\<close>, as an
  earlier and larger subnet leaves them.  For a new container the scan overflows at once,
  goes back to the gateway, passes the two taken addresses, overflows again, and so on: the
  candidate is never the cursor again, and \<open>AllocateIP\<close> never returns.
\<close>

theorem stale_cursor_never_returns:
  "NewIPAM (ip4 10 244 0 0, 30) = Inr net30 \<and>
   AllocateIP env30 net30 stale30 ''c3'' ''eth0'' = None"
proof -
  have "AllocateIP env30 net30 stale30 ''c3'' ''eth0'' =
        scan env30 net30 ''c3'' ''eth0'' (ip4 10 244 0 9) (ip4 10 244 0 9) stale30"
    by (simp add: AllocateIP_def store_defs input_defs stale30_def)
  moreover have "scan env30 net30 ''c3'' ''eth0'' (ip4 10 244 0 9) (ip4 10 244 0 9) stale30 = None"
  proof (cases "scan env30 net30 ''c3'' ''eth0'' (ip4 10 244 0 9) (ip4 10 244 0 9) stale30")
    case (Some y)
    from scan_stale30 [OF this] show ?thesis by simp
  qed simp
  ultimately show ?thesis by (simp add: new30)
qed

section \<open>The gateway address\<close>

lemma Add_sdata:
  "sdata (snd (Add e s (Some x) cid ifn)) =
     (case IPs (sdata s) of
        None \<Rightarrow> sdata s
      | Some m \<Rightarrow> \<lparr>IPs = Some (m(x \<mapsto> \<lparr>ContainerID = cid, IfName = ifn\<rparr>)), Last = Some x\<rparr>)"
  by (simp add: Add_def Save_def split: option.splits prod.splits)

lemma scan_above_gateway:
  assumes "scan e ipam cid ifn lastIP cur s = Some y"
  shows "gateway ipam \<le> cur \<longrightarrow>
           fst (fst y) \<noteq> Some (gateway ipam) \<and>
           map_option (\<lambda>m. m (gateway ipam)) (IPs (sdata (snd y))) =
             map_option (\<lambda>m. m (gateway ipam)) (IPs (sdata s))"
proof (rule scan.raw_induct [where P = "\<lambda>e ipam cid ifn lastIP cur s y. gateway ipam \<le> cur \<longrightarrow>
           fst (fst y) \<noteq> Some (gateway ipam) \<and>
           map_option (\<lambda>m. m (gateway ipam)) (IPs (sdata (snd y))) =
             map_option (\<lambda>m. m (gateway ipam)) (IPs (sdata s))"], goal_cases)
  case (1 f e ipam cid ifn lastIP cur s y)
  show ?case
  proof
    assume ge: "gateway ipam \<le> cur"
    show "fst (fst y) \<noteq> Some (gateway ipam) \<and>
           map_option (\<lambda>m. m (gateway ipam)) (IPs (sdata (snd y))) =
             map_option (\<lambda>m. m (gateway ipam)) (IPs (sdata s))"
    proof (cases "NextIP ipam cur")
      case (Inl err)
      show ?thesis
      proof (cases "err = ErrIPOverflow \<and> lastIP \<noteq> gateway ipam")
        case True
        with Inl 1(2) have "f e ipam cid ifn lastIP (gateway ipam) s = Some y" by simp
        from 1(1) [OF this] show ?thesis by simp
      next
        case False
        with Inl 1(2) show ?thesis by auto
      qed
    next
      case (Inr nextIP)
      from NextIP_Inr [OF Inr] ge have gt: "gateway ipam < nextIP" by simp
      show ?thesis
      proof (cases "Contain s nextIP")
        case False
        with Inr 1(2) have y: "y = ((Some nextIP, fst (Add e s (Some nextIP) cid ifn)),
                                   snd (Add e s (Some nextIP) cid ifn))"
          by (auto split: prod.splits)
        show ?thesis using gt by (simp add: y Add_sdata split: option.splits)
      next
        case True
        show ?thesis
        proof (cases "nextIP = lastIP")
          case True
          with Inr \<open>Contain s nextIP\<close> 1(2) show ?thesis by auto
        next
          case False
          with Inr \<open>Contain s nextIP\<close> 1(2) have "f e ipam cid ifn lastIP nextIP s = Some y" by simp
          from 1(1) [OF this] gt show ?thesis by simp
        qed
      qed
    qed
  qed
qed (rule assms)

text \<open>
  C9, as stated, fails: when the data file already holds a record keyed by the gateway
  address for the container, with the gateway as cursor, \<open>AllocateIP\<close> returns the
  gateway address, through the lookup by container.  The program itself writes such a file
  when an earlier call met the network address as cursor (a cursor left by another subnet).
\<close>

theorem gateway_holder_gets_gateway:
  "NewIPAM (ip4 10 244 0 0, 30) = Inr net30 \<and>
   AllocateIP env30 net30 (holding Map.empty (Some (ip4 10 244 0 0)) 1) ''c1'' ''eth0'' =
     Some ((Some (gateway net30), None), gw_held) \<and>
   Last (sdata gw_held) = Some (gateway net30) \<and>
   content (sdisk gw_held) = Some (Doc (sdata gw_held)) \<and>
   Contains (subnet net30) (gateway net30) \<and> gateway net30 \<noteq> base (subnet net30) \<and>
   AllocateIP env30 net30 gw_held ''c1'' ''eth0'' = Some ((Some (gateway net30), None), gw_held)"
  by (simp add: new30) (simp add: ipam_defs store_defs input_defs gw_held_def scan.simps)

text \<open>
  C9, amended: for an allocator made by \<open>NewIPAM\<close> and a loaded store whose cursor is
  absent, or an address of the subnet other than the network address, a call of
  \<open>AllocateIP\<close> that returns leaves the record keyed by the gateway as it was (none, if
  there was none), and returns the gateway address only to a container that already owns the
  record keyed by the gateway.
\<close>

theorem gateway_never_allocated:
  assumes "NewIPAM c = Inr ipam"
    and "LoadData e s = (None, s1)"
    and "Last (sdata s1) = None \<or>
         (\<exists>l. Last (sdata s1) = Some l \<and> Contains (subnet ipam) l \<and> l \<noteq> base (subnet ipam))"
    and "AllocateIP e ipam s cid ifn = Some ((r, err), s')"
  shows "map_option (\<lambda>m. m (gateway ipam)) (IPs (sdata s')) =
           map_option (\<lambda>m. m (gateway ipam)) (IPs (sdata s1)) \<and>
         (r = Some (gateway ipam) \<longrightarrow> (\<exists>m. IPs (sdata s1) = Some m \<and> owns m cid (gateway ipam)))"
proof (cases "first_match e (sdata s1) cid")
  case (Some a)
  then obtain m where m: "IPs (sdata s1) = Some m" and f: "find (owns m cid) (order e) = Some a"
    by (auto simp: first_match_def split: option.splits)
  from f have "owns m cid a" by (auto simp: find_Some_iff)
  moreover from assms(2,4) Some have "r = Some a" "s' = s1"
    by (simp_all add: AllocateIP_def GetIPById_def)
  ultimately show ?thesis using m by auto
next
  case None
  obtain a n where c: "c = (a, n)" by (cases c)
  note sh = NewIPAM_shape [OF assms(1) [unfolded c]]
  let ?start = "case Last (sdata s1) of None \<Rightarrow> gateway ipam | Some l \<Rightarrow> l"
  have ge: "gateway ipam \<le> ?start"
  proof (cases "Last (sdata s1)")
    case (Some l)
    with assms(3) have "Contains (subnet ipam) l" "l \<noteq> base (subnet ipam)" by auto
    then show ?thesis using Some sh(2) Contains_aligned [OF sh(1)] by simp
  qed simp
  from assms(2,4) None have "scan e ipam cid ifn ?start ?start s1 = Some ((r, err), s')"
    by (simp add: AllocateIP_def GetIPById_def Last_ip_def Let_def)
  from scan_above_gateway [OF this] ge show ?thesis by simp
qed

theorem gateway_never_allocated_witness:
  "map_option (\<lambda>m. m (gateway net30))
       (IPs (sdata (holding [ip4 10 244 0 2 \<mapsto> rec_of ''c1'', ip4 10 244 0 3 \<mapsto> rec_of ''c2'']
             (Some (ip4 10 244 0 3)) 3))) = Some None \<and>
   Some (ip4 10 244 0 3) \<noteq> Some (gateway net30)"
proof -
  let ?s1 = "holding [ip4 10 244 0 2 \<mapsto> rec_of ''c1''] (Some (ip4 10 244 0 2)) 2"
  let ?s2 = "holding [ip4 10 244 0 2 \<mapsto> rec_of ''c1'', ip4 10 244 0 3 \<mapsto> rec_of ''c2'']
             (Some (ip4 10 244 0 3)) 3"
  have l: "LoadData env30 ?s1 = (None, ?s1)" by (simp add: store_defs input_defs)
  have c: "Last (sdata ?s1) = None \<or>
         (\<exists>l. Last (sdata ?s1) = Some l \<and> Contains (subnet net30) l \<and> l \<noteq> base (subnet net30))"
    by (simp add: input_defs Contains_def hostsize_def)
  from gateway_never_allocated [OF new30 l c alloc30_2]
  show ?thesis by (simp add: input_defs)
qed

section \<open>One record for a container\<close>














end
